theory Spec2Isabelle
  imports Main
begin

section \<open>Calendar entries\<close>

text \<open>
  Dates and times as Python's \<^verbatim>\<open>datetime\<close> module has them. A \<^verbatim>\<open>date\<close> is its
  proleptic ordinal (a day count). A \<^verbatim>\<open>datetime\<close> is its wall-clock reading in
  microseconds; an aware one also carries its UTC offset in microseconds and the identity
  of its \<^verbatim>\<open>tzinfo\<close> object.
\<close>

datatype pydt =
    Date int
  | Naive int
  | Aware int int nat

text \<open>
  A property value of an icalendar component. \<^verbatim>\<open>vText\<close> is a subclass of \<^verbatim>\<open>str\<close>.
  \<^verbatim>\<open>vDDDTypes\<close> wraps a date or datetime in its attribute \<^verbatim>\<open>dt\<close>; the second
  argument is the text that \<^verbatim>\<open>str()\<close> renders for the object.
\<close>

datatype propval =
    VText string
  | VDDD pydt string

text \<open>
  An \<^verbatim>\<open>Event\<close> is a dictionary from property names to values; \<^verbatim>\<open>ev.get(key)\<close> is
  the lookup, \<^verbatim>\<open>None\<close> for a missing key.
\<close>

type_synonym event = "string \<rightharpoonup> propval"

datatype error = TypeError | AttributeError

section \<open>Strings\<close>

text \<open>
  Python strings are sequences of code points; a \<^typ>\<open>char\<close> is read as a code point
  below 256. \<^verbatim>\<open>isspace\<close> is the whitespace test shared by \<^verbatim>\<open>str.strip()\<close> and by
  \<^verbatim>\<open>\s\<close> in a \<^verbatim>\<open>str\<close> pattern: code points 9 to 13, 28 to 32, 133 and 160.
\<close>

definition isspace :: "char \<Rightarrow> bool" where
  "isspace c =
     (let n = (of_char c :: nat)
      in (9 \<le> n \<and> n \<le> 13) \<or> (28 \<le> n \<and> n \<le> 32) \<or> n = 133 \<or> n = 160)"

definition strip :: "string \<Rightarrow> string" where
  "strip s = rev (dropWhile isspace (rev (dropWhile isspace s)))"

text \<open>
  \<^verbatim>\<open>str.lower()\<close> below code point 256: the ASCII capitals and the Latin-1 capitals
  192 to 222 (215, the multiplication sign, excepted) move up by 32.
\<close>

definition lower_char :: "char \<Rightarrow> char" where
  "lower_char c =
     (let n = (of_char c :: nat)
      in if (65 \<le> n \<and> n \<le> 90) \<or> (192 \<le> n \<and> n \<le> 222 \<and> n \<noteq> 215)
         then char_of (n + 32) else c)"

definition lower :: "string \<Rightarrow> string" where
  "lower s = map lower_char s"

text \<open>\<^verbatim>\<open>re.sub(r"\s+", " ", s)\<close>: every maximal run of whitespace becomes one space.\<close>

function sub_spaces :: "string \<Rightarrow> string" where
  "sub_spaces [] = []"
| "sub_spaces (c # cs) =
     (if isspace c then CHR '' '' # sub_spaces (dropWhile isspace cs)
      else c # sub_spaces cs)"
  by pat_completeness auto
termination
  by (relation "measure length") (auto simp: length_dropWhile_le less_Suc_eq_le)

definition norm_summary :: "string \<Rightarrow> string" where
  "norm_summary s = sub_spaces (lower (strip s))"

text \<open>
  A literal of a pattern compiled with \<^verbatim>\<open>re.I\<close> matches at the head of the subject when
  the code points agree up to case; the rest of the subject is returned.
\<close>

fun match_literal :: "string \<Rightarrow> string \<Rightarrow> string option" where
  "match_literal [] s = Some s"
| "match_literal (p # ps) [] = None"
| "match_literal (p # ps) (c # cs) =
     (if lower_char p = lower_char c then match_literal ps cs else None)"

text \<open>
  \<^verbatim>\<open>ORIG-UID:\s*([^\s]+)\<close> tried at the head of the subject. After the literal the
  greedy \<^verbatim>\<open>\s*\<close> takes the whole run of whitespace, and the group is the run of
  non-whitespace that follows, which must not be empty. The result is group 1.
\<close>

definition match_orig_uid :: "string \<Rightarrow> string option" where
  "match_orig_uid s =
     (case match_literal ''ORIG-UID:'' s of
        None \<Rightarrow> None
      | Some r \<Rightarrow>
          (let g = takeWhile (\<lambda>c. \<not> isspace c) (dropWhile isspace r)
           in if g = [] then None else Some g))"

text \<open>
  \<^verbatim>\<open>\[UID:([^\]]+)\]$\<close> tried at the head of the subject. The group is the run of
  code points other than \<^verbatim>\<open>]\<close> after the literal, not empty; a \<^verbatim>\<open>]\<close> follows, and
  \<^verbatim>\<open>$\<close> (without \<^verbatim>\<open>re.M\<close>) holds at the end of the subject or before a newline
  that ends it.
\<close>

definition match_uid_tag :: "string \<Rightarrow> string option" where
  "match_uid_tag s =
     (case match_literal ''[UID:'' s of
        None \<Rightarrow> None
      | Some r \<Rightarrow>
          (let g = takeWhile (\<lambda>c. c \<noteq> CHR '']'') r;
               t = dropWhile (\<lambda>c. c \<noteq> CHR '']'') r
           in if g \<noteq> [] \<and> (t = [CHR '']''] \<or> t = [CHR '']'', CHR 0x0A])
              then Some g else None))"

text \<open>
  \<^verbatim>\<open>re.search\<close>: the pattern is tried at every position of the subject from the left,
  the end included, and the first success is the match.
\<close>

fun re_search :: "(string \<Rightarrow> string option) \<Rightarrow> string \<Rightarrow> string option" where
  "re_search m [] = m []"
| "re_search m (c # cs) =
     (case m (c # cs) of Some g \<Rightarrow> Some g | None \<Rightarrow> re_search m cs)"

section \<open>Reading an entry\<close>

text \<open>Truth value and \<^verbatim>\<open>str()\<close> of a property value.\<close>

fun truthy :: "propval \<Rightarrow> bool" where
  "truthy (VText s) = (s \<noteq> [])"
| "truthy (VDDD d r) = True"

fun str_of :: "propval \<Rightarrow> string" where
  "str_of (VText s) = s"
| "str_of (VDDD d r) = r"

text \<open>\<^verbatim>\<open>uid(ev)\<close> is \<^verbatim>\<open>str(ev.get("UID") or "").strip()\<close>.\<close>

definition uid :: "event \<Rightarrow> string" where
  "uid ev =
     strip (case ev ''UID'' of
              None \<Rightarrow> []
            | Some v \<Rightarrow> if truthy v then str_of v else [])"

text \<open>\<^verbatim>\<open>text(v)\<close>.\<close>

fun text_of :: "propval option \<Rightarrow> string" where
  "text_of None = []"
| "text_of (Some v) = str_of v"

text \<open>
  \<^verbatim>\<open>get_dt\<close> returns \<^verbatim>\<open>v.dt if v else None\<close>. A non-empty \<^verbatim>\<open>vText\<close> has no
  attribute \<^verbatim>\<open>dt\<close>.
\<close>

definition get_dt :: "event \<Rightarrow> string \<Rightarrow> error + pydt option" where
  "get_dt ev key =
     (case ev key of
        None \<Rightarrow> Inr None
      | Some (VText s) \<Rightarrow> if s = [] then Inr None else Inl AttributeError
      | Some (VDDD d r) \<Rightarrow> Inr (Some d))"

section \<open>Time comparison\<close>

text \<open>
  \<^verbatim>\<open>a - b\<close>, the \<^verbatim>\<open>timedelta\<close> in microseconds. Two dates differ by whole days. Two
  datetimes with the same \<^verbatim>\<open>tzinfo\<close> object (both naive included) differ by their
  wall-clock readings; two aware ones with different \<^verbatim>\<open>tzinfo\<close> objects by their UTC
  instants. Every other pairing raises \<^verbatim>\<open>TypeError\<close>.
\<close>

fun py_sub :: "pydt \<Rightarrow> pydt \<Rightarrow> error + int" where
  "py_sub (Date a) (Date b) = Inr ((a - b) * 86400000000)"
| "py_sub (Naive a) (Naive b) = Inr (a - b)"
| "py_sub (Aware a oa za) (Aware b ob zb) =
     Inr (if za = zb then a - b else (a - oa) - (b - ob))"
| "py_sub _ _ = Inl TypeError"

text \<open>\<^verbatim>\<open>timedelta(minutes=m)\<close> in microseconds.\<close>

definition timedelta_minutes :: "int \<Rightarrow> int" where
  "timedelta_minutes m = m * 60000000"

text \<open>
  \<^verbatim>\<open>approx_equal_time(a, b, minutes)\<close>. A date or datetime object is always true, so
  \<^verbatim>\<open>not a\<close> holds for \<^verbatim>\<open>None\<close> only.
\<close>

definition approx_equal_time :: "pydt option \<Rightarrow> pydt option \<Rightarrow> int \<Rightarrow> error + bool" where
  "approx_equal_time a b minutes =
     (case (a, b) of
        (Some x, Some y) \<Rightarrow>
          (case py_sub x y of
             Inl e \<Rightarrow> Inl e
           | Inr delta \<Rightarrow> Inr (\<bar>delta\<bar> \<le> timedelta_minutes minutes))
      | _ \<Rightarrow> Inr False)"

section \<open>The identifier resolver\<close>

definition find_orig_uid_in_override :: "event \<Rightarrow> string option" where
  "find_orig_uid_in_override ov =
     (case (case ov ''X-ORIG-UID'' of
              None \<Rightarrow> None
            | Some x \<Rightarrow> if truthy x then Some (str_of x) else None) of
        Some r \<Rightarrow> Some r
      | None \<Rightarrow>
          (case re_search match_orig_uid (text_of (ov ''DESCRIPTION'')) of
             Some g \<Rightarrow> Some (strip g)
           | None \<Rightarrow>
               (case re_search match_uid_tag (text_of (ov ''SUMMARY'')) of
                  Some g \<Rightarrow> Some (strip g)
                | None \<Rightarrow> None)))"

section \<open>The base index\<close>

text \<open>
  Entries of \<^verbatim>\<open>base_events\<close> are objects that the overlay mutates, so a reference to
  one is its position in the list. The dictionary comprehension of
  \<^verbatim>\<open>index_base_by_uid\<close> stores the entries from left to right; a later entry replaces an
  earlier one with the same key.
\<close>

definition index_base_by_uid :: "event list \<Rightarrow> (string \<rightharpoonup> nat)" where
  "index_base_by_uid base_events =
     foldl (\<lambda>m (i, e). if uid e \<noteq> [] then m(uid e \<mapsto> i) else m)
       Map.empty (enumerate 0 base_events)"

section \<open>The fuzzy matcher\<close>

text \<open>
  The body of the loop of \<^verbatim>\<open>fuzzy_match_base\<close> for one base entry: is it appended to
  \<^verbatim>\<open>candidates\<close>? \<^verbatim>\<open>get_dt\<close> is called for every entry; \<^verbatim>\<open>and\<close> calls
  \<^verbatim>\<open>approx_equal_time\<close> only when the normalised titles are equal.
\<close>

definition is_candidate :: "string \<Rightarrow> pydt option \<Rightarrow> event \<Rightarrow> error + bool" where
  "is_candidate o_sum o_dt ev =
     (let b_sum = norm_summary (text_of (ev ''SUMMARY''))
      in case get_dt ev ''DTSTART'' of
           Inl e \<Rightarrow> Inl e
         | Inr b_dt \<Rightarrow>
             if o_sum = b_sum then approx_equal_time o_dt b_dt 30 else Inr False)"

text \<open>The loop, from position \<open>i\<close> on, with the candidates collected so far.\<close>

fun fuzzy_loop ::
  "string \<Rightarrow> pydt option \<Rightarrow> nat \<Rightarrow> event list \<Rightarrow> nat list \<Rightarrow> error + nat list" where
  "fuzzy_loop o_sum o_dt i [] candidates = Inr candidates"
| "fuzzy_loop o_sum o_dt i (ev # evs) candidates =
     (case is_candidate o_sum o_dt ev of
        Inl e \<Rightarrow> Inl e
      | Inr c \<Rightarrow>
          fuzzy_loop o_sum o_dt (Suc i) evs
            (if c then candidates @ [i] else candidates))"

definition fuzzy_match_base :: "event list \<Rightarrow> event \<Rightarrow> error + nat option" where
  "fuzzy_match_base base_events override =
     (let o_sum = norm_summary (text_of (override ''SUMMARY''))
      in case get_dt override ''DTSTART'' of
           Inl e \<Rightarrow> Inl e
         | Inr o_dt \<Rightarrow>
             (case fuzzy_loop o_sum o_dt 0 base_events [] of
                Inl e \<Rightarrow> Inl e
              | Inr candidates \<Rightarrow>
                  Inr (case candidates of [] \<Rightarrow> None | c # _ \<Rightarrow> Some c)))"

section \<open>The overlay\<close>


text \<open>
  \<^verbatim>\<open>apply_override\<close> mutates \<^verbatim>\<open>base\<close> in place; the model returns the updated entry.
  The \<^verbatim>\<open>for\<close> loop over the four text keys is a fold over the same tuple.
\<close>

definition copy_key :: "event \<Rightarrow> event \<Rightarrow> string \<Rightarrow> event" where
  "copy_key override base key =
     (case override key of None \<Rightarrow> base | Some v \<Rightarrow> base(key \<mapsto> v))"

definition apply_override :: "event \<Rightarrow> event \<Rightarrow> event" where
  "apply_override base override =
     (let base1 = foldl (copy_key override) base
                    [''SUMMARY'', ''LOCATION'', ''DESCRIPTION'', ''STATUS'']
      in case override ''DTSTART'' of
           None \<Rightarrow> base1
         | Some s \<Rightarrow>
             (let base2 = base1(''DTSTART'' \<mapsto> s)
              in case override ''DTEND'' of
                   None \<Rightarrow> base2
                 | Some e \<Rightarrow> base2(''DTEND'' \<mapsto> e)))"

section \<open>The merge driver\<close>

text \<open>
  The first half of the body of the loop of \<^verbatim>\<open>main\<close>, which finds the target of one
  override: \<^verbatim>\<open>if orig and orig in base_by_uid: target = base_by_uid[orig]\<close>, then
  \<^verbatim>\<open>if target is None: target = fuzzy_match_base(base_events, o)\<close>.
\<close>

definition find_target ::
  "(string \<rightharpoonup> nat) \<Rightarrow> event list \<Rightarrow> event \<Rightarrow> error + nat option" where
  "find_target base_by_uid base_events ov =
     (let orig = find_orig_uid_in_override ov;
          target = (case orig of
                      None \<Rightarrow> None
                    | Some u \<Rightarrow> if u \<noteq> [] then base_by_uid u else None)
      in case target of
           Some t \<Rightarrow> Inr (Some t)
         | None \<Rightarrow> fuzzy_match_base base_events ov)"

text \<open>
  The loop over the overrides. The state is the list of base entries, mutated by the
  overlay, and the components added to \<^verbatim>\<open>out\<close> so far. With a target the body
  calls \<^verbatim>\<open>apply_override(target, o)\<close>, without one \<^verbatim>\<open>out.add_component(o)\<close>.
\<close>

fun merge_loop ::
  "(string \<rightharpoonup> nat) \<Rightarrow> event list \<Rightarrow> event list \<Rightarrow> event list
     \<Rightarrow> error + (event list \<times> event list)" where
  "merge_loop base_by_uid base_events out [] = Inr (base_events, out)"
| "merge_loop base_by_uid base_events out (ov # ovs) =
     (case find_target base_by_uid base_events ov of
        Inl e \<Rightarrow> Inl e
      | Inr (Some t) \<Rightarrow>
          merge_loop base_by_uid
            (base_events[t := apply_override (base_events ! t) ov]) out ovs
      | Inr None \<Rightarrow> merge_loop base_by_uid base_events (out @ [ov]) ovs)"

text \<open>
  \<^verbatim>\<open>main\<close> from the two parsed calendars on: \<open>timezones\<close> are the
  \<^verbatim>\<open>VTIMEZONE\<close> components of the feed, added to \<^verbatim>\<open>out\<close> first, \<open>base_events\<close>
  and \<open>overrides\<close> the \<^verbatim>\<open>VEVENT\<close> components of the two calendars. The result is the
  list of components of \<^verbatim>\<open>out\<close> in the order they were added. The dictionary
  \<^verbatim>\<open>merged_events\<close> is never read and has no counterpart here.
\<close>

definition main :: "event list \<Rightarrow> event list \<Rightarrow> event list \<Rightarrow> error + event list" where
  "main timezones base_events overrides =
     (case merge_loop (index_base_by_uid base_events) base_events timezones overrides of
        Inl e \<Rightarrow> Inl e
      | Inr (base_events', out) \<Rightarrow> Inr (out @ base_events'))"

section \<open>Notions used in the statements\<close>

text \<open>
  The kind of a start value: a date, a naive datetime or an aware datetime.
\<close>

datatype kind = DateKind | NaiveKind | AwareKind

fun kind_of :: "pydt \<Rightarrow> kind" where
  "kind_of (Date a) = DateKind"
| "kind_of (Naive a) = NaiveKind"
| "kind_of (Aware a off z) = AwareKind"

text \<open>
  The test of the loop of \<^verbatim>\<open>fuzzy_match_base\<close> as a truth value: the normalised
  titles are equal and \<^verbatim>\<open>approx_equal_time\<close> gives true for the two starts, with the
  difference that \<^verbatim>\<open>a - b\<close> computes.
\<close>

definition matcher_rule :: "event \<Rightarrow> event \<Rightarrow> bool" where
  "matcher_rule ov b =
     (norm_summary (text_of (ov ''SUMMARY'')) = norm_summary (text_of (b ''SUMMARY''))
      \<and> (case (get_dt ov ''DTSTART'', get_dt b ''DTSTART'') of
            (Inr (Some x), Inr (Some y)) \<Rightarrow>
              (case py_sub x y of
                 Inr delta \<Rightarrow> \<bar>delta\<bar> \<le> timedelta_minutes 30
               | Inl e \<Rightarrow> False)
          | _ \<Rightarrow> False))"

text \<open>The position of the first element of a list that satisfies a test.\<close>

fun first_index :: "('a \<Rightarrow> bool) \<Rightarrow> 'a list \<Rightarrow> nat option" where
  "first_index P [] = None"
| "first_index P (x # xs) =
     (if P x then Some 0 else map_option Suc (first_index P xs))"






text \<open>
  What \<^verbatim>\<open>main\<close> does with one override is a decision: \<open>None\<close>, the override is
  added to the output, or \<open>Some t\<close>, it is overlaid on the base entry at position
  \<open>t\<close>. \<open>overlay_step\<close> is the effect of one decision on the base entries,
  \<open>unmatched\<close> the overrides of a run whose decision was \<open>None\<close>, in their order.
\<close>

definition overlay_step :: "event list \<Rightarrow> event \<times> nat option \<Rightarrow> event list" where
  "overlay_step bs p =
     (case snd p of
        None \<Rightarrow> bs
      | Some t \<Rightarrow> bs[t := apply_override (bs ! t) (fst p)])"

definition unmatched :: "event list \<Rightarrow> nat option list \<Rightarrow> event list" where
  "unmatched ovs ts = map fst (filter (\<lambda>p. snd p = None) (zip ovs ts))"

text \<open>
  The decisions of a run of \<^verbatim>\<open>main\<close>: the targets the loop finds for the overrides,
  one after the other, each against the base entries as the overlays before it left
  them. A comparison that raises ends the run.
\<close>

fun decisions ::
  "(string \<rightharpoonup> nat) \<Rightarrow> event list \<Rightarrow> event list \<Rightarrow> error + nat option list" where
  "decisions base_by_uid bs [] = Inr []"
| "decisions base_by_uid bs (ov # ovs) =
     (case find_target base_by_uid bs ov of
        Inl e \<Rightarrow> Inl e
      | Inr t \<Rightarrow>
          (case decisions base_by_uid (overlay_step bs (ov, t)) ovs of
             Inl e \<Rightarrow> Inl e
           | Inr ts \<Rightarrow> Inr (t # ts)))"

text \<open>
  The start of an entry is absent, or a date or datetime of kind \<open>k\<close>.
\<close>

definition start_of_kind :: "kind \<Rightarrow> event \<Rightarrow> bool" where
  "start_of_kind k ev =
     (case get_dt ev ''DTSTART'' of
        Inl e \<Rightarrow> False
      | Inr None \<Rightarrow> True
      | Inr (Some d) \<Rightarrow> kind_of d = k)"

section \<open>Properties of the overlay\<close>

lemma apply_override_apply:
  "apply_override base override k =
     (if k \<in> {''SUMMARY'', ''LOCATION'', ''DESCRIPTION'', ''STATUS''} then
        (case override k of None \<Rightarrow> base k | Some v \<Rightarrow> Some v)
      else if k = ''DTSTART'' then
        (case override ''DTSTART'' of None \<Rightarrow> base k | Some s \<Rightarrow> Some s)
      else if k = ''DTEND'' then
        (case override ''DTSTART'' of
           None \<Rightarrow> base k
         | Some s \<Rightarrow> (case override ''DTEND'' of None \<Rightarrow> base k | Some e \<Rightarrow> Some e))
      else base k)"
  by (simp add: apply_override_def copy_key_def Let_def split: option.splits)


text \<open>
  Claim C7. The overlay leaves the identifier of the target as it was, the \<^verbatim>\<open>UID\<close>
  property and the identifier \<^verbatim>\<open>uid\<close> reads from it, and leaves every property other
  than \<^verbatim>\<open>SUMMARY\<close>, \<^verbatim>\<open>LOCATION\<close>, \<^verbatim>\<open>DESCRIPTION\<close>, \<^verbatim>\<open>STATUS\<close>, \<^verbatim>\<open>DTSTART\<close> and
  \<^verbatim>\<open>DTEND\<close> as on the target, whatever the override holds for it.
\<close>

theorem overlay_keeps_other_fields:
  "apply_override base override ''UID'' = base ''UID''
   \<and> uid (apply_override base override) = uid base
   \<and> (\<forall>k. k \<notin> {''SUMMARY'', ''LOCATION'', ''DESCRIPTION'', ''STATUS'', ''DTSTART'', ''DTEND''}
          \<longrightarrow> apply_override base override k = base k)"
  by (simp add: apply_override_apply uid_def)

theorem overlay_keeps_other_fields_witness:
  "''CATEGORIES'' \<notin> {''SUMMARY'', ''LOCATION'', ''DESCRIPTION'', ''STATUS'', ''DTSTART'', ''DTEND''}
   \<and> apply_override
         [''UID'' \<mapsto> VText ''b1'', ''CATEGORIES'' \<mapsto> VText ''uni'', ''SUMMARY'' \<mapsto> VText ''X'']
         [''UID'' \<mapsto> VText ''o1'', ''CATEGORIES'' \<mapsto> VText ''mine'', ''SUMMARY'' \<mapsto> VText ''Y'']
         ''CATEGORIES'' = Some (VText ''uni'')
   \<and> uid (apply_override
         [''UID'' \<mapsto> VText ''b1'', ''CATEGORIES'' \<mapsto> VText ''uni'', ''SUMMARY'' \<mapsto> VText ''X'']
         [''UID'' \<mapsto> VText ''o1'', ''CATEGORIES'' \<mapsto> VText ''mine'', ''SUMMARY'' \<mapsto> VText ''Y''])
       = ''b1''"
  using overlay_keeps_other_fields
    [of "[''UID'' \<mapsto> VText ''b1'', ''CATEGORIES'' \<mapsto> VText ''uni'', ''SUMMARY'' \<mapsto> VText ''X'']"
        "[''UID'' \<mapsto> VText ''o1'', ''CATEGORIES'' \<mapsto> VText ''mine'', ''SUMMARY'' \<mapsto> VText ''Y'']"]
  by (simp add: uid_def strip_def isspace_def)

text \<open>
  Claim C8. An override with a start and no end puts its start on the target and leaves
  the end of the target as it was; the end of the override is copied exactly when the
  override defines both start and end.
\<close>

theorem overlay_start_without_end:
  "(override ''DTSTART'' = Some s \<and> override ''DTEND'' = None \<longrightarrow>
      apply_override base override ''DTSTART'' = Some s
      \<and> apply_override base override ''DTEND'' = base ''DTEND'')
   \<and> apply_override base override ''DTEND'' =
       (if override ''DTSTART'' \<noteq> None \<and> override ''DTEND'' \<noteq> None
        then override ''DTEND'' else base ''DTEND'')"
  by (auto simp add: apply_override_apply split: option.splits)

theorem overlay_start_without_end_witness:
  "[''DTSTART'' \<mapsto> VDDD (Naive 7) ''s''] ''DTSTART'' = Some (VDDD (Naive 7) ''s'')
   \<and> [''DTSTART'' \<mapsto> VDDD (Naive 7) ''s''] ''DTEND'' = None
   \<and> apply_override
         [''DTSTART'' \<mapsto> VDDD (Naive 1) ''a'', ''DTEND'' \<mapsto> VDDD (Naive 2) ''b'']
         [''DTSTART'' \<mapsto> VDDD (Naive 7) ''s''] ''DTSTART'' = Some (VDDD (Naive 7) ''s'')
   \<and> apply_override
         [''DTSTART'' \<mapsto> VDDD (Naive 1) ''a'', ''DTEND'' \<mapsto> VDDD (Naive 2) ''b'']
         [''DTSTART'' \<mapsto> VDDD (Naive 7) ''s''] ''DTEND'' = Some (VDDD (Naive 2) ''b'')"
  using overlay_start_without_end
    [of "[''DTSTART'' \<mapsto> VDDD (Naive 7) ''s'']" "VDDD (Naive 7) ''s''"
        "[''DTSTART'' \<mapsto> VDDD (Naive 1) ''a'', ''DTEND'' \<mapsto> VDDD (Naive 2) ''b'']"]
  by simp

text \<open>
  Claim C9. Applying the overlay a second time with the same override changes nothing.
\<close>

theorem overlay_idempotent:
  "apply_override (apply_override base override) override = apply_override base override"
  by (rule ext) (simp add: apply_override_apply split: option.splits)

text \<open>
  Claim C10. An override with an end and no start changes neither the start nor the end
  of the target.
\<close>

theorem overlay_end_without_start:
  "override ''DTSTART'' = None \<Longrightarrow> override ''DTEND'' = Some e \<Longrightarrow>
     apply_override base override ''DTSTART'' = base ''DTSTART''
     \<and> apply_override base override ''DTEND'' = base ''DTEND''"
  by (simp add: apply_override_apply)

theorem overlay_end_without_start_witness:
  "[''DTEND'' \<mapsto> VDDD (Naive 9) ''e''] ''DTSTART'' = None
   \<and> [''DTEND'' \<mapsto> VDDD (Naive 9) ''e''] ''DTEND'' = Some (VDDD (Naive 9) ''e'')
   \<and> apply_override
         [''DTSTART'' \<mapsto> VDDD (Naive 1) ''a'', ''DTEND'' \<mapsto> VDDD (Naive 2) ''b'']
         [''DTEND'' \<mapsto> VDDD (Naive 9) ''e''] ''DTSTART'' = Some (VDDD (Naive 1) ''a'')
   \<and> apply_override
         [''DTSTART'' \<mapsto> VDDD (Naive 1) ''a'', ''DTEND'' \<mapsto> VDDD (Naive 2) ''b'']
         [''DTEND'' \<mapsto> VDDD (Naive 9) ''e''] ''DTEND'' = Some (VDDD (Naive 2) ''b'')"
  using overlay_end_without_start
    [of "[''DTEND'' \<mapsto> VDDD (Naive 9) ''e'']" "VDDD (Naive 9) ''e''"
        "[''DTSTART'' \<mapsto> VDDD (Naive 1) ''a'', ''DTEND'' \<mapsto> VDDD (Naive 2) ''b'']"]
  by simp

section \<open>Properties of the identifier resolver\<close>


lemma re_search_SomeD:
  "re_search m s = Some g \<Longrightarrow> \<exists>p t. s = p @ t \<and> m t = Some g"
proof (induction s)
  case Nil
  then show ?case by simp
next
  case (Cons c cs)
  show ?case
  proof (cases "m (c # cs)")
    case None
    with Cons.prems have "re_search m cs = Some g" by simp
    from Cons.IH[OF this] obtain p t where "cs = p @ t" "m t = Some g" by blast
    then have "c # cs = (c # p) @ t \<and> m t = Some g" by simp
    then show ?thesis by blast
  next
    case (Some a)
    with Cons.prems have "m (c # cs) = Some g" by simp
    then have "c # cs = [] @ (c # cs) \<and> m (c # cs) = Some g" by simp
    then show ?thesis by blast
  qed
qed





lemma match_orig_uid_SomeD:
  assumes "match_orig_uid t = Some g"
  shows "g \<noteq> [] \<and> (\<forall>c\<in>set g. \<not> isspace c)"
proof -
  from assms obtain r where
    g: "g = takeWhile (\<lambda>c. \<not> isspace c) (dropWhile isspace r)" and ne: "g \<noteq> []"
    by (auto simp: match_orig_uid_def Let_def split: option.splits if_splits)
  from g have "\<forall>c\<in>set g. \<not> isspace c"
    by (auto dest: set_takeWhileD)
  with ne show ?thesis by simp
qed

lemma strip_no_space:
  assumes "\<forall>c\<in>set g. \<not> isspace c"
  shows "strip g = g"
proof -
  from assms have a: "dropWhile isspace g = g"
    by (cases g) auto
  from assms have b: "dropWhile isspace (rev g) = rev g"
    by (cases "rev g") (auto simp: rev_eq_Cons_iff)
  show ?thesis by (simp add: strip_def a b)
qed

lemma search_orig_uid_SomeD:
  assumes "re_search match_orig_uid s = Some g"
  shows "g \<noteq> [] \<and> strip g = g"
proof -
  from re_search_SomeD[OF assms] obtain t where "match_orig_uid t = Some g" by blast
  from match_orig_uid_SomeD[OF this] show ?thesis by (simp add: strip_no_space)
qed

text \<open>
  Claim C5. The resolver takes the dedicated field \<^verbatim>\<open>X-ORIG-UID\<close> when it holds a
  true value, whatever the description and the title hold; otherwise the
  \<^verbatim>\<open>ORIG-UID:\<close> marker of the description, whose value is never empty, whatever the
  title holds; otherwise the \<^verbatim>\<open>[UID:...]\<close> marker that ends the title; otherwise
  nothing.
\<close>

theorem resolver_strategy_order:
  "(\<forall>x. ov ''X-ORIG-UID'' = Some x \<and> truthy x \<longrightarrow>
      find_orig_uid_in_override ov = Some (str_of x))
   \<and> (\<forall>g. (\<forall>x. ov ''X-ORIG-UID'' = Some x \<longrightarrow> \<not> truthy x)
          \<and> re_search match_orig_uid (text_of (ov ''DESCRIPTION'')) = Some g \<longrightarrow>
        g \<noteq> [] \<and> find_orig_uid_in_override ov = Some g)
   \<and> (\<forall>g. (\<forall>x. ov ''X-ORIG-UID'' = Some x \<longrightarrow> \<not> truthy x)
          \<and> re_search match_orig_uid (text_of (ov ''DESCRIPTION'')) = None
          \<and> re_search match_uid_tag (text_of (ov ''SUMMARY'')) = Some g \<longrightarrow>
        find_orig_uid_in_override ov = Some (strip g))
   \<and> ((\<forall>x. ov ''X-ORIG-UID'' = Some x \<longrightarrow> \<not> truthy x)
          \<and> re_search match_orig_uid (text_of (ov ''DESCRIPTION'')) = None
          \<and> re_search match_uid_tag (text_of (ov ''SUMMARY'')) = None \<longrightarrow>
        find_orig_uid_in_override ov = None)"
proof (intro conjI allI impI)
  fix x
  assume "ov ''X-ORIG-UID'' = Some x \<and> truthy x"
  then show "find_orig_uid_in_override ov = Some (str_of x)"
    by (simp add: find_orig_uid_in_override_def)
next
  fix g
  assume a: "(\<forall>x. ov ''X-ORIG-UID'' = Some x \<longrightarrow> \<not> truthy x)
    \<and> re_search match_orig_uid (text_of (ov ''DESCRIPTION'')) = Some g"
  then show "g \<noteq> []"
    using search_orig_uid_SomeD by blast
  from a have "strip g = g"
    using search_orig_uid_SomeD by blast
  with a show "find_orig_uid_in_override ov = Some g"
    by (simp add: find_orig_uid_in_override_def split: option.splits)
next
  fix g
  assume "(\<forall>x. ov ''X-ORIG-UID'' = Some x \<longrightarrow> \<not> truthy x)
    \<and> re_search match_orig_uid (text_of (ov ''DESCRIPTION'')) = None
    \<and> re_search match_uid_tag (text_of (ov ''SUMMARY'')) = Some g"
  then show "find_orig_uid_in_override ov = Some (strip g)"
    by (simp add: find_orig_uid_in_override_def split: option.splits)
next
  assume "(\<forall>x. ov ''X-ORIG-UID'' = Some x \<longrightarrow> \<not> truthy x)
    \<and> re_search match_orig_uid (text_of (ov ''DESCRIPTION'')) = None
    \<and> re_search match_uid_tag (text_of (ov ''SUMMARY'')) = None"
  then show "find_orig_uid_in_override ov = None"
    by (simp add: find_orig_uid_in_override_def split: option.splits)
qed

theorem resolver_strategy_order_witness:
  "find_orig_uid_in_override
     [''X-ORIG-UID'' \<mapsto> VText ''base-1'',
      ''DESCRIPTION'' \<mapsto> VText ''moved, ORIG-UID: base-2 (room 5)'',
      ''SUMMARY'' \<mapsto> VText ''Algebra II [UID:base-3]''] = Some ''base-1''
   \<and> re_search match_orig_uid ''moved, ORIG-UID: base-2 (room 5)'' = Some ''base-2''
   \<and> find_orig_uid_in_override
       [''DESCRIPTION'' \<mapsto> VText ''moved, ORIG-UID: base-2 (room 5)'',
        ''SUMMARY'' \<mapsto> VText ''Algebra II [UID:base-3]''] = Some ''base-2''
   \<and> re_search match_orig_uid ''moved'' = None
   \<and> re_search match_uid_tag ''Algebra II [UID:base-3]'' = Some ''base-3''
   \<and> find_orig_uid_in_override
       [''DESCRIPTION'' \<mapsto> VText ''moved'',
        ''SUMMARY'' \<mapsto> VText ''Algebra II [UID:base-3]''] = Some ''base-3''
   \<and> re_search match_uid_tag ''Algebra II'' = None
   \<and> find_orig_uid_in_override
       [''DESCRIPTION'' \<mapsto> VText ''moved'', ''SUMMARY'' \<mapsto> VText ''Algebra II''] = None"
proof -
  let ?o1 = "[''X-ORIG-UID'' \<mapsto> VText ''base-1'',
      ''DESCRIPTION'' \<mapsto> VText ''moved, ORIG-UID: base-2 (room 5)'',
      ''SUMMARY'' \<mapsto> VText ''Algebra II [UID:base-3]'']"
  let ?o2 = "[''DESCRIPTION'' \<mapsto> VText ''moved, ORIG-UID: base-2 (room 5)'',
        ''SUMMARY'' \<mapsto> VText ''Algebra II [UID:base-3]'']"
  let ?o3 = "[''DESCRIPTION'' \<mapsto> VText ''moved'',
        ''SUMMARY'' \<mapsto> VText ''Algebra II [UID:base-3]'']"
  let ?o4 = "[''DESCRIPTION'' \<mapsto> VText ''moved'', ''SUMMARY'' \<mapsto> VText ''Algebra II'']"
  have d2: "re_search match_orig_uid ''moved, ORIG-UID: base-2 (room 5)'' = Some ''base-2''"
    by code_simp
  have d3: "re_search match_orig_uid ''moved'' = None"
    by code_simp
  have t3: "re_search match_uid_tag ''Algebra II [UID:base-3]'' = Some ''base-3''"
    by code_simp
  have t4: "re_search match_uid_tag ''Algebra II'' = None"
    by code_simp
  have s3: "strip ''base-3'' = ''base-3''"
    by code_simp
  have x1: "?o1 ''X-ORIG-UID'' = Some (VText ''base-1'') \<and> truthy (VText ''base-1'')"
    by simp
  from resolver_strategy_order[of ?o1] x1
  have "find_orig_uid_in_override ?o1 = Some (str_of (VText ''base-1''))"
    by blast
  then have 1: "find_orig_uid_in_override ?o1 = Some ''base-1''" by simp
  have x2: "(\<forall>x. ?o2 ''X-ORIG-UID'' = Some x \<longrightarrow> \<not> truthy x)
    \<and> re_search match_orig_uid (text_of (?o2 ''DESCRIPTION'')) = Some ''base-2''"
    using d2 by simp
  from resolver_strategy_order[of ?o2] x2
  have 2: "find_orig_uid_in_override ?o2 = Some ''base-2''"
    by blast
  have x3: "(\<forall>x. ?o3 ''X-ORIG-UID'' = Some x \<longrightarrow> \<not> truthy x)
    \<and> re_search match_orig_uid (text_of (?o3 ''DESCRIPTION'')) = None
    \<and> re_search match_uid_tag (text_of (?o3 ''SUMMARY'')) = Some ''base-3''"
    using d3 t3 by simp
  from resolver_strategy_order[of ?o3] x3
  have "find_orig_uid_in_override ?o3 = Some (strip ''base-3'')"
    by blast
  with s3 have 3: "find_orig_uid_in_override ?o3 = Some ''base-3''" by simp
  have x4: "(\<forall>x. ?o4 ''X-ORIG-UID'' = Some x \<longrightarrow> \<not> truthy x)
    \<and> re_search match_orig_uid (text_of (?o4 ''DESCRIPTION'')) = None
    \<and> re_search match_uid_tag (text_of (?o4 ''SUMMARY'')) = None"
    using d3 t4 by simp
  from resolver_strategy_order[of ?o4] x4
  have 4: "find_orig_uid_in_override ?o4 = None"
    by blast
  note body = conjI[OF 1 conjI[OF d2 conjI[OF 2 conjI[OF d3 conjI[OF t3 conjI[OF 3
        conjI[OF t4 4]]]]]]]
  show ?thesis by (rule body)
qed

section \<open>Properties of the time comparison\<close>

lemma py_sub_same_kind: "kind_of x = kind_of y \<Longrightarrow> \<exists>d. py_sub x y = Inr d"
  by (cases x; cases y) simp_all

lemma py_sub_other_kind: "kind_of x \<noteq> kind_of y \<Longrightarrow> py_sub x y = Inl TypeError"
  by (cases x; cases y) simp_all

lemma approx_equal_time_None:
  "a = None \<or> b = None \<Longrightarrow> approx_equal_time a b m = Inr False"
  by (auto simp: approx_equal_time_def split: option.splits)

lemma approx_equal_time_same_kind:
  "kind_of x = kind_of y \<Longrightarrow> \<exists>r. approx_equal_time (Some x) (Some y) m = Inr r"
  using py_sub_same_kind[of x y] by (auto simp: approx_equal_time_def)

lemma approx_equal_time_other_kind:
  "kind_of x \<noteq> kind_of y \<Longrightarrow> approx_equal_time (Some x) (Some y) m = Inl TypeError"
  by (simp add: approx_equal_time_def py_sub_other_kind)

section \<open>Properties of the fuzzy matcher\<close>

lemma fuzzy_loop_raises:
  "b \<in> set bs \<Longrightarrow> is_candidate o_sum o_dt b = Inl e \<Longrightarrow>
     \<exists>e'. fuzzy_loop o_sum o_dt i bs cands = Inl e'"
proof (induction bs arbitrary: i cands)
  case Nil
  then show ?case by simp
next
  case (Cons a bs)
  show ?case
  proof (cases "is_candidate o_sum o_dt a")
    case (Inl e0)
    then show ?thesis by simp
  next
    case (Inr c)
    with Cons.prems have "b \<in> set bs" by auto
    from Cons.IH[OF this Cons.prems(2)] Inr show ?thesis by simp
  qed
qed

lemma fuzzy_loop_returns:
  "\<forall>b\<in>set bs. \<exists>c. is_candidate o_sum o_dt b = Inr c \<Longrightarrow>
     \<exists>r. fuzzy_loop o_sum o_dt i bs cands = Inr r"
proof (induction bs arbitrary: i cands)
  case Nil
  then show ?case by simp
next
  case (Cons a bs)
  from Cons.prems obtain c where c: "is_candidate o_sum o_dt a = Inr c" by auto
  from Cons.prems have "\<forall>b\<in>set bs. \<exists>c. is_candidate o_sum o_dt b = Inr c" by simp
  from Cons.IH[OF this] c show ?case by simp
qed

lemma fuzzy_loop_first:
  "fuzzy_loop o_sum o_dt i bs cands = Inr r \<Longrightarrow>
     (case r of [] \<Rightarrow> None | c # _ \<Rightarrow> Some c) =
     (case cands of
        [] \<Rightarrow> map_option (\<lambda>j. i + j)
                (first_index (\<lambda>b. is_candidate o_sum o_dt b = Inr True) bs)
      | c # _ \<Rightarrow> Some c)"
proof (induction bs arbitrary: i cands)
  case Nil
  then show ?case by (simp split: list.splits)
next
  case (Cons a bs)
  from Cons.prems obtain c where c: "is_candidate o_sum o_dt a = Inr c"
    and loop: "fuzzy_loop o_sum o_dt (Suc i) bs (if c then cands @ [i] else cands) = Inr r"
    by (auto split: sum.splits)
  note ih = Cons.IH[OF loop]
  show ?case
  proof (cases cands)
    case Nil
    show ?thesis
    proof (cases c)
      case True
      with ih Nil c show ?thesis by simp
    next
      case False
      with ih Nil c show ?thesis
        by (cases "first_index (\<lambda>b. is_candidate o_sum o_dt b = Inr True) bs") simp_all
    qed
  next
    case (Cons x xs)
    with ih show ?thesis by (simp split: if_splits)
  qed
qed

lemma is_candidate_rule:
  "get_dt ov ''DTSTART'' = Inr o_dt \<Longrightarrow>
     (is_candidate (norm_summary (text_of (ov ''SUMMARY''))) o_dt b = Inr True)
     = matcher_rule ov b"
  by (auto simp: is_candidate_def matcher_rule_def approx_equal_time_def Let_def
      split: sum.splits option.splits)


lemma first_index_Some:
  "first_index P xs = Some i \<Longrightarrow> i < length xs \<and> P (xs ! i) \<and> (\<forall>j<i. \<not> P (xs ! j))"
proof (induction xs arbitrary: i)
  case Nil
  then show ?case by simp
next
  case (Cons a xs)
  show ?case
  proof (cases "P a")
    case True
    with Cons.prems show ?thesis by simp
  next
    case False
    with Cons.prems obtain k where k: "first_index P xs = Some k" and i: "i = Suc k"
      by auto
    from Cons.IH[OF k] have ih: "k < length xs" "P (xs ! k)" "\<forall>j<k. \<not> P (xs ! j)"
      by simp_all
    have "\<forall>j<Suc k. \<not> P ((a # xs) ! j)"
    proof (intro allI impI)
      fix j assume "j < Suc k"
      with ih(3) False show "\<not> P ((a # xs) ! j)" by (cases j) auto
    qed
    with ih i show ?thesis by simp
  qed
qed

lemma fuzzy_match_base_first:
  assumes "fuzzy_match_base bs ov = Inr r"
  shows "r = first_index (matcher_rule ov) bs"
proof -
  let ?s = "norm_summary (text_of (ov ''SUMMARY''))"
  from assms obtain o_dt cands where dt: "get_dt ov ''DTSTART'' = Inr o_dt"
    and loop: "fuzzy_loop ?s o_dt 0 bs [] = Inr cands"
    and r: "r = (case cands of [] \<Rightarrow> None | c # _ \<Rightarrow> Some c)"
    by (auto simp: fuzzy_match_base_def Let_def split: sum.splits)
  from fuzzy_loop_first[OF loop] r
  have "r = first_index (\<lambda>b. is_candidate ?s o_dt b = Inr True) bs"
    by (cases "first_index (\<lambda>b. is_candidate ?s o_dt b = Inr True) bs") simp_all
  with is_candidate_rule[OF dt] show ?thesis by simp
qed


lemma fuzzy_match_base_returns:
  assumes "get_dt ov ''DTSTART'' = Inr o_dt"
    and "\<forall>b\<in>set bs. \<exists>c. is_candidate (norm_summary (text_of (ov ''SUMMARY''))) o_dt b = Inr c"
  shows "\<exists>r. fuzzy_match_base bs ov = Inr r"
proof -
  from fuzzy_loop_returns[OF assms(2)] obtain cands
    where "fuzzy_loop (norm_summary (text_of (ov ''SUMMARY''))) o_dt 0 bs [] = Inr cands"
    by blast
  with assms(1) show ?thesis by (simp add: fuzzy_match_base_def)
qed

text \<open>
  Claim C2, as the code has it. The comparison returns no match when a start is absent,
  and returns normally for two starts of one kind (two dates, two naive datetimes, two
  aware datetimes). For two starts of different kinds the subtraction raises
  \<^verbatim>\<open>TypeError\<close>; the fuzzy matcher, which compares the starts of entries with equal
  normalised titles, then raises as well.
\<close>

theorem time_comparison_by_kind:
  "(a = None \<or> b = None \<longrightarrow> approx_equal_time a b m = Inr False)
   \<and> (kind_of x = kind_of y \<longrightarrow> (\<exists>r. approx_equal_time (Some x) (Some y) m = Inr r))
   \<and> (kind_of x \<noteq> kind_of y \<longrightarrow> approx_equal_time (Some x) (Some y) m = Inl TypeError)
   \<and> (kind_of x \<noteq> kind_of y
        \<and> get_dt ov ''DTSTART'' = Inr (Some x)
        \<and> be \<in> set bs
        \<and> get_dt be ''DTSTART'' = Inr (Some y)
        \<and> norm_summary (text_of (ov ''SUMMARY'')) = norm_summary (text_of (be ''SUMMARY''))
        \<longrightarrow> (\<exists>e. fuzzy_match_base bs ov = Inl e))"
proof (intro conjI impI)
  assume "a = None \<or> b = None"
  then show "approx_equal_time a b m = Inr False" by (rule approx_equal_time_None)
next
  assume "kind_of x = kind_of y"
  then show "\<exists>r. approx_equal_time (Some x) (Some y) m = Inr r"
    by (rule approx_equal_time_same_kind)
next
  assume "kind_of x \<noteq> kind_of y"
  then show "approx_equal_time (Some x) (Some y) m = Inl TypeError"
    by (rule approx_equal_time_other_kind)
next
  let ?s = "norm_summary (text_of (ov ''SUMMARY''))"
  assume a: "kind_of x \<noteq> kind_of y
        \<and> get_dt ov ''DTSTART'' = Inr (Some x)
        \<and> be \<in> set bs
        \<and> get_dt be ''DTSTART'' = Inr (Some y)
        \<and> ?s = norm_summary (text_of (be ''SUMMARY''))"
  then have "is_candidate ?s (Some x) be = Inl TypeError"
    by (simp add: is_candidate_def approx_equal_time_other_kind)
  with a obtain e' where "fuzzy_loop ?s (Some x) 0 bs [] = Inl e'"
    using fuzzy_loop_raises by blast
  with a show "\<exists>e. fuzzy_match_base bs ov = Inl e"
    by (simp add: fuzzy_match_base_def)
qed

theorem time_comparison_by_kind_witness:
  "approx_equal_time None (Some (Date 738900)) 30 = Inr False
   \<and> kind_of (Naive 63840909600000000) = kind_of (Naive 63840911400000000)
   \<and> (\<exists>r. approx_equal_time (Some (Naive 63840909600000000))
            (Some (Naive 63840911400000000)) 30 = Inr r)
   \<and> kind_of (Naive 63840909600000000) \<noteq> kind_of (Date 738900)
   \<and> approx_equal_time (Some (Naive 63840909600000000)) (Some (Date 738900)) 30
       = Inl TypeError
   \<and> get_dt [''SUMMARY'' \<mapsto> VText ''Holiday'',
             ''DTSTART'' \<mapsto> VDDD (Naive 63840909600000000) ''2024-01-15 10:00:00'']
        ''DTSTART'' = Inr (Some (Naive 63840909600000000))
   \<and> get_dt [''SUMMARY'' \<mapsto> VText ''holiday'',
             ''DTSTART'' \<mapsto> VDDD (Date 738900) ''2024-01-15'']
        ''DTSTART'' = Inr (Some (Date 738900))
   \<and> norm_summary ''Holiday'' = norm_summary ''holiday''
   \<and> (\<exists>e. fuzzy_match_base
              [[''SUMMARY'' \<mapsto> VText ''Lecture''],
               [''SUMMARY'' \<mapsto> VText ''holiday'',
                ''DTSTART'' \<mapsto> VDDD (Date 738900) ''2024-01-15'']]
              [''SUMMARY'' \<mapsto> VText ''Holiday'',
               ''DTSTART'' \<mapsto> VDDD (Naive 63840909600000000) ''2024-01-15 10:00:00'']
            = Inl e)"
proof -
  let ?x = "Naive 63840909600000000"
  let ?y = "Date 738900"
  let ?ov = "[''SUMMARY'' \<mapsto> VText ''Holiday'',
               ''DTSTART'' \<mapsto> VDDD ?x ''2024-01-15 10:00:00'']"
  let ?be = "[''SUMMARY'' \<mapsto> VText ''holiday'',
                ''DTSTART'' \<mapsto> VDDD ?y ''2024-01-15'']"
  let ?bs = "[[''SUMMARY'' \<mapsto> VText ''Lecture''], ?be]"
  have k: "kind_of ?x = kind_of (Naive 63840911400000000)" "kind_of ?x \<noteq> kind_of ?y"
    by simp_all
  have g: "get_dt ?ov ''DTSTART'' = Inr (Some ?x)" "get_dt ?be ''DTSTART'' = Inr (Some ?y)"
    by (simp_all add: get_dt_def)
  have n: "norm_summary ''Holiday'' = norm_summary ''holiday''"
    by code_simp
  then have n': "norm_summary (text_of (?ov ''SUMMARY'')) = norm_summary (text_of (?be ''SUMMARY''))"
    by simp
  have m: "?be \<in> set ?bs" by simp
  from time_comparison_by_kind[of None "Some ?y" 30 ?x "Naive 63840911400000000"] k(1)
  have 1: "approx_equal_time None (Some ?y) 30 = Inr False"
    and 2: "\<exists>r. approx_equal_time (Some ?x) (Some (Naive 63840911400000000)) 30 = Inr r"
    by blast+
  from time_comparison_by_kind[of None None 30 ?x ?y ?ov ?be ?bs] k(2) g n' m
  have 3: "approx_equal_time (Some ?x) (Some ?y) 30 = Inl TypeError"
    and 4: "\<exists>e. fuzzy_match_base ?bs ?ov = Inl e"
    by blast+
  note body = conjI[OF 1 conjI[OF k(1) conjI[OF 2 conjI[OF k(2) conjI[OF 3
        conjI[OF g(1) conjI[OF g(2) conjI[OF n 4]]]]]]]]
  show ?thesis by (rule body)
qed

text \<open>
  The claim as stated fails: an all-day base entry (a date) and an override of the same
  title with a datetime start, or a naive and an aware datetime, make the comparison, the
  fuzzy matcher and the whole run raise \<^verbatim>\<open>TypeError\<close>.
\<close>

theorem incompatible_kinds_raise:
  "approx_equal_time (Some (Naive 63840909600000000)) (Some (Date 738900)) 30
     = Inl TypeError
   \<and> approx_equal_time (Some (Aware 63840909600000000 3600000000 1))
        (Some (Naive 63840909600000000)) 30 = Inl TypeError
   \<and> fuzzy_match_base
        [[''UID'' \<mapsto> VText ''b1'', ''SUMMARY'' \<mapsto> VText ''Holiday'',
          ''DTSTART'' \<mapsto> VDDD (Date 738900) ''2024-01-15'']]
        [''UID'' \<mapsto> VText ''o1'', ''SUMMARY'' \<mapsto> VText ''Holiday'',
         ''DTSTART'' \<mapsto> VDDD (Naive 63840909600000000) ''2024-01-15 10:00:00'']
       = Inl TypeError
   \<and> main []
        [[''UID'' \<mapsto> VText ''b1'', ''SUMMARY'' \<mapsto> VText ''Holiday'',
          ''DTSTART'' \<mapsto> VDDD (Date 738900) ''2024-01-15'']]
        [[''UID'' \<mapsto> VText ''o1'', ''SUMMARY'' \<mapsto> VText ''Holiday'',
          ''DTSTART'' \<mapsto> VDDD (Naive 63840909600000000) ''2024-01-15 10:00:00'']]
       = Inl TypeError"
proof -
  let ?b = "[''UID'' \<mapsto> VText ''b1'', ''SUMMARY'' \<mapsto> VText ''Holiday'',
          ''DTSTART'' \<mapsto> VDDD (Date 738900) ''2024-01-15'']"
  let ?o = "[''UID'' \<mapsto> VText ''o1'', ''SUMMARY'' \<mapsto> VText ''Holiday'',
         ''DTSTART'' \<mapsto> VDDD (Naive 63840909600000000) ''2024-01-15 10:00:00'']"
  have 1: "approx_equal_time (Some (Naive 63840909600000000)) (Some (Date 738900)) 30
     = Inl TypeError"
    by code_simp
  have 2: "approx_equal_time (Some (Aware 63840909600000000 3600000000 1))
        (Some (Naive 63840909600000000)) 30 = Inl TypeError"
    by code_simp
  have 3: "fuzzy_match_base [?b] ?o = Inl TypeError"
    by code_simp
  have "(case main [] [?b] [?o] of Inl e \<Rightarrow> Some e | Inr r \<Rightarrow> None) = Some TypeError"
    by code_simp
  then have 4: "main [] [?b] [?o] = Inl TypeError"
    by (simp split: sum.splits)
  from 1 2 3 4 show ?thesis by simp
qed











section \<open>Properties of the merge driver\<close>

lemma index_fold_range:
  "foldl (\<lambda>m (i, e). if uid e \<noteq> [] then m(uid e \<mapsto> i) else m) m0 (enumerate n bs) u = Some i
     \<Longrightarrow> m0 u = Some i \<or> (n \<le> i \<and> i < n + length bs)"
proof (induction bs arbitrary: m0 n)
  case Nil
  then show ?case by simp
next
  case (Cons b bs)
  let ?m1 = "if uid b \<noteq> [] then m0(uid b \<mapsto> n) else m0"
  from Cons.prems
  have "foldl (\<lambda>m (i, e). if uid e \<noteq> [] then m(uid e \<mapsto> i) else m) ?m1
          (enumerate (Suc n) bs) u = Some i"
    by simp
  from Cons.IH[OF this] have "?m1 u = Some i \<or> (Suc n \<le> i \<and> i < Suc n + length bs)" .
  then show ?case
    by (auto split: if_splits)
qed

lemma index_base_by_uid_range:
  "index_base_by_uid bs u = Some i \<Longrightarrow> i < length bs"
  using index_fold_range[of Map.empty 0 bs u i]
  by (simp add: index_base_by_uid_def)

lemma find_target_range:
  assumes "\<forall>u i. idx u = Some i \<longrightarrow> i < length bs"
    and "find_target idx bs ov = Inr (Some t)"
  shows "t < length bs"
proof -
  let ?orig = "find_orig_uid_in_override ov"
  let ?tg = "case ?orig of None \<Rightarrow> None | Some u \<Rightarrow> if u \<noteq> [] then idx u else None"
  show ?thesis
  proof (cases ?tg)
    case None
    with assms(2) have "fuzzy_match_base bs ov = Inr (Some t)"
      by (simp add: find_target_def)
    from fuzzy_match_base_first[OF this] have "first_index (matcher_rule ov) bs = Some t"
      by simp
    from first_index_Some[OF this] show ?thesis by simp
  next
    case (Some a)
    with assms(2) have "a = t" by (simp add: find_target_def)
    with Some have "\<exists>u. idx u = Some t"
      by (auto split: option.splits if_splits)
    with assms(1) show ?thesis by blast
  qed
qed

lemma length_overlay_step: "length (overlay_step bs p) = length bs"
  by (simp add: overlay_step_def split: option.splits)

lemma uid_apply_override: "uid (apply_override base override) = uid base"
  by (simp add: uid_def apply_override_apply)

lemma map_uid_overlay_step: "map uid (overlay_step bs p) = map uid bs"
proof (cases "snd p")
  case None
  then show ?thesis by (simp add: overlay_step_def)
next
  case (Some t)
  have "map uid (bs[t := apply_override (bs ! t) (fst p)]) = map uid bs"
  proof (rule nth_equalityI)
    show "length (map uid (bs[t := apply_override (bs ! t) (fst p)])) = length (map uid bs)"
      by simp
  next
    fix i
    assume "i < length (map uid (bs[t := apply_override (bs ! t) (fst p)]))"
    then have i: "i < length bs" by simp
    then have "uid (bs[t := apply_override (bs ! t) (fst p)] ! i) = uid (bs ! i)"
      by (cases "i = t") (simp_all add: uid_apply_override)
    with i show "map uid (bs[t := apply_override (bs ! t) (fst p)]) ! i = map uid bs ! i"
      by simp
  qed
  with Some show ?thesis by (simp add: overlay_step_def)
qed

lemma length_foldl_overlay: "length (foldl overlay_step bs ps) = length bs"
  by (induction ps arbitrary: bs) (simp_all add: length_overlay_step)

lemma map_uid_foldl_overlay: "map uid (foldl overlay_step bs ps) = map uid bs"
  by (induction ps arbitrary: bs) (simp_all add: map_uid_overlay_step)

lemma merge_loop_decisions:
  "merge_loop idx bs out ovs =
     (case decisions idx bs ovs of
        Inl e \<Rightarrow> Inl e
      | Inr ts \<Rightarrow> Inr (foldl overlay_step bs (zip ovs ts), out @ unmatched ovs ts))"
proof (induction ovs arbitrary: bs out)
  case Nil
  show ?case by (simp add: unmatched_def)
next
  case (Cons ov ovs)
  show ?case
  proof (cases "find_target idx bs ov")
    case (Inl e)
    then show ?thesis by simp
  next
    case (Inr t)
    show ?thesis
    proof (cases t)
      case None
      with Inr Cons.IH[of bs "out @ [ov]"] show ?thesis
        by (simp add: overlay_step_def unmatched_def split: sum.splits)
    next
      case (Some i)
      with Inr Cons.IH[of "bs[i := apply_override (bs ! i) ov]" out] show ?thesis
        by (simp add: overlay_step_def unmatched_def split: sum.splits)
    qed
  qed
qed

lemma decisions_length:
  "decisions idx bs ovs = Inr ts \<Longrightarrow> length ts = length ovs"
  by (induction ovs arbitrary: bs ts) (auto split: sum.splits)

lemma decisions_range:
  assumes "\<forall>u i. idx u = Some i \<longrightarrow> i < length bs"
    and "decisions idx bs ovs = Inr ts"
  shows "\<forall>i. Some i \<in> set ts \<longrightarrow> i < length bs"
  using assms
proof (induction ovs arbitrary: bs ts)
  case Nil
  then show ?case by simp
next
  case (Cons ov ovs)
  from Cons.prems(2) obtain t ts' where t: "find_target idx bs ov = Inr t"
    and d: "decisions idx (overlay_step bs (ov, t)) ovs = Inr ts'"
    and ts: "ts = t # ts'"
    by (auto split: sum.splits)
  from Cons.prems(1) have "\<forall>u i. idx u = Some i \<longrightarrow> i < length (overlay_step bs (ov, t))"
    by (simp add: length_overlay_step)
  from Cons.IH[OF this d] have tl: "\<forall>i. Some i \<in> set ts' \<longrightarrow> i < length bs"
    by (simp add: length_overlay_step)
  show ?case
  proof (intro allI impI)
    fix i assume "Some i \<in> set ts"
    with ts have "t = Some i \<or> Some i \<in> set ts'" by auto
    then show "i < length bs"
    proof
      assume "t = Some i"
      with t find_target_range[OF Cons.prems(1)] show ?thesis by blast
    next
      assume "Some i \<in> set ts'"
      with tl show ?thesis by blast
    qed
  qed
qed

lemma decisions_nth:
  "decisions idx bs ovs = Inr ts \<Longrightarrow> n < length ovs \<Longrightarrow>
     find_target idx (foldl overlay_step bs (take n (zip ovs ts))) (ovs ! n) = Inr (ts ! n)"
proof (induction ovs arbitrary: bs ts n)
  case Nil
  then show ?case by simp
next
  case (Cons ov ovs)
  from Cons.prems(1) obtain t ts' where t: "find_target idx bs ov = Inr t"
    and d: "decisions idx (overlay_step bs (ov, t)) ovs = Inr ts'"
    and ts: "ts = t # ts'"
    by (auto split: sum.splits)
  show ?case
  proof (cases n)
    case 0
    with t ts show ?thesis by simp
  next
    case (Suc m)
    with Cons.prems(2) have "m < length ovs" by simp
    from Cons.IH[OF d this] Suc ts show ?thesis by simp
  qed
qed

lemma start_of_kind_get_dt:
  "start_of_kind k ev \<Longrightarrow>
     \<exists>d. get_dt ev ''DTSTART'' = Inr d \<and> (\<forall>x. d = Some x \<longrightarrow> kind_of x = k)"
  by (auto simp: start_of_kind_def split: sum.splits option.splits)

lemma is_candidate_of_kind:
  assumes "start_of_kind k b" and "\<forall>x. o_dt = Some x \<longrightarrow> kind_of x = k"
  shows "\<exists>c. is_candidate s o_dt b = Inr c"
proof -
  from start_of_kind_get_dt[OF assms(1)] obtain d
    where d: "get_dt b ''DTSTART'' = Inr d" "\<forall>y. d = Some y \<longrightarrow> kind_of y = k"
    by blast
  have "\<exists>c. approx_equal_time o_dt d 30 = Inr c"
  proof (cases "o_dt = None \<or> d = None")
    case True
    from approx_equal_time_None[OF this] show ?thesis by blast
  next
    case False
    then obtain x y where xy: "o_dt = Some x" "d = Some y" by auto
    with assms(2) d(2) have "kind_of x = kind_of y" by simp
    from approx_equal_time_same_kind[OF this] xy show ?thesis by simp
  qed
  with d(1) show ?thesis by (auto simp: is_candidate_def Let_def)
qed

lemma find_target_of_kind:
  assumes "start_of_kind k ov" and "\<forall>b\<in>set bs. start_of_kind k b"
  shows "\<exists>r. find_target idx bs ov = Inr r"
proof -
  from start_of_kind_get_dt[OF assms(1)] obtain d
    where d: "get_dt ov ''DTSTART'' = Inr d" "\<forall>x. d = Some x \<longrightarrow> kind_of x = k"
    by blast
  from assms(2) d(2)
  have "\<forall>b\<in>set bs. \<exists>c. is_candidate (norm_summary (text_of (ov ''SUMMARY''))) d b = Inr c"
    using is_candidate_of_kind by blast
  from fuzzy_match_base_returns[OF d(1) this] show ?thesis
    by (auto simp: find_target_def Let_def split: option.splits)
qed

lemma start_of_kind_apply_override:
  "start_of_kind k b \<Longrightarrow> start_of_kind k ov \<Longrightarrow> start_of_kind k (apply_override b ov)"
  by (auto simp: start_of_kind_def get_dt_def apply_override_apply split: option.splits)

lemma start_of_kind_overlay_step:
  assumes "\<forall>b\<in>set bs. start_of_kind k b" and "start_of_kind k ov"
  shows "\<forall>b\<in>set (overlay_step bs (ov, t)). start_of_kind k b"
proof (cases t)
  case None
  with assms(1) show ?thesis by (simp add: overlay_step_def)
next
  case (Some i)
  show ?thesis
  proof (cases "i < length bs")
    case True
    with assms have "start_of_kind k (apply_override (bs ! i) ov)"
      by (simp add: start_of_kind_apply_override)
    moreover have "set (bs[i := apply_override (bs ! i) ov])
        \<subseteq> insert (apply_override (bs ! i) ov) (set bs)"
      by (rule set_update_subset_insert)
    ultimately show ?thesis using assms(1) Some by (auto simp: overlay_step_def)
  next
    case False
    then have "bs[i := apply_override (bs ! i) ov] = bs"
      by (simp add: list_update_beyond)
    with assms(1) Some show ?thesis by (simp add: overlay_step_def)
  qed
qed

lemma merge_loop_returns:
  "\<forall>b\<in>set bs. start_of_kind k b \<Longrightarrow> \<forall>ov\<in>set ovs. start_of_kind k ov \<Longrightarrow>
     \<exists>r. merge_loop idx bs out ovs = Inr r"
proof (induction ovs arbitrary: bs out)
  case Nil
  then show ?case by simp
next
  case (Cons ov ovs)
  from Cons.prems have ov: "start_of_kind k ov" and ovs: "\<forall>ov\<in>set ovs. start_of_kind k ov"
    by simp_all
  from find_target_of_kind[OF ov Cons.prems(1)] obtain t
    where t: "find_target idx bs ov = Inr t" by blast
  from start_of_kind_overlay_step[OF Cons.prems(1) ov]
  have bs1: "\<forall>b\<in>set (overlay_step bs (ov, t)). start_of_kind k b" .
  show ?case
  proof (cases t)
    case None
    with t Cons.IH[OF Cons.prems(1) ovs] show ?thesis by simp
  next
    case (Some i)
    with bs1 have "\<forall>b\<in>set (bs[i := apply_override (bs ! i) ov]). start_of_kind k b"
      by (simp add: overlay_step_def)
    from Cons.IH[OF this ovs] t Some show ?thesis by simp
  qed
qed

text \<open>
  Claim C1, as the code has it. The output of \<^verbatim>\<open>main\<close> is the time zone components,
  then the unmatched overrides in the order of the override set, then all base entries
  in the order of the base set, some overlaid, each with the identifier it had. The
  unmatched overrides are those for which the loop finds no target at their turn, by
  identifier or by fuzzy match against the base entries as the overlays before left
  them; every other override is overlaid on its target, a base entry, and is not
  emitted. \<^verbatim>\<open>main\<close> raises exactly when the search for a target raises, and it
  completes when all starts present in the two sets are of one kind.
\<close>

theorem main_output_order:
  "main tzs bs ovs =
     (case decisions (index_base_by_uid bs) bs ovs of
        Inl e \<Rightarrow> Inl e
      | Inr ts \<Rightarrow> Inr (tzs @ unmatched ovs ts @ foldl overlay_step bs (zip ovs ts)))
   \<and> (\<forall>ts. decisions (index_base_by_uid bs) bs ovs = Inr ts \<longrightarrow>
         length ts = length ovs
         \<and> (\<forall>n<length ovs.
               find_target (index_base_by_uid bs)
                 (foldl overlay_step bs (take n (zip ovs ts))) (ovs ! n) = Inr (ts ! n))
         \<and> (\<forall>i. Some i \<in> set ts \<longrightarrow> i < length bs)
         \<and> length (foldl overlay_step bs (zip ovs ts)) = length bs
         \<and> map uid (foldl overlay_step bs (zip ovs ts)) = map uid bs)
   \<and> ((\<forall>e\<in>set bs \<union> set ovs. start_of_kind k e) \<longrightarrow> (\<exists>out. main tzs bs ovs = Inr out))"
proof (intro conjI)
  show "main tzs bs ovs =
     (case decisions (index_base_by_uid bs) bs ovs of
        Inl e \<Rightarrow> Inl e
      | Inr ts \<Rightarrow> Inr (tzs @ unmatched ovs ts @ foldl overlay_step bs (zip ovs ts)))"
    by (simp add: main_def merge_loop_decisions split: sum.splits)
next
  have idx: "\<forall>u i. index_base_by_uid bs u = Some i \<longrightarrow> i < length bs"
    using index_base_by_uid_range by blast
  show "\<forall>ts. decisions (index_base_by_uid bs) bs ovs = Inr ts \<longrightarrow>
         length ts = length ovs
         \<and> (\<forall>n<length ovs.
               find_target (index_base_by_uid bs)
                 (foldl overlay_step bs (take n (zip ovs ts))) (ovs ! n) = Inr (ts ! n))
         \<and> (\<forall>i. Some i \<in> set ts \<longrightarrow> i < length bs)
         \<and> length (foldl overlay_step bs (zip ovs ts)) = length bs
         \<and> map uid (foldl overlay_step bs (zip ovs ts)) = map uid bs"
  proof (intro allI impI)
    fix ts
    assume d: "decisions (index_base_by_uid bs) bs ovs = Inr ts"
    have 1: "length ts = length ovs"
      using d by (rule decisions_length)
    have 2: "\<forall>n<length ovs.
               find_target (index_base_by_uid bs)
                 (foldl overlay_step bs (take n (zip ovs ts))) (ovs ! n) = Inr (ts ! n)"
      using decisions_nth[OF d] by blast
    have 3: "\<forall>i. Some i \<in> set ts \<longrightarrow> i < length bs"
      using decisions_range[OF idx d] .
    from 1 2 3 show "length ts = length ovs
         \<and> (\<forall>n<length ovs.
               find_target (index_base_by_uid bs)
                 (foldl overlay_step bs (take n (zip ovs ts))) (ovs ! n) = Inr (ts ! n))
         \<and> (\<forall>i. Some i \<in> set ts \<longrightarrow> i < length bs)
         \<and> length (foldl overlay_step bs (zip ovs ts)) = length bs
         \<and> map uid (foldl overlay_step bs (zip ovs ts)) = map uid bs"
      by (simp add: length_foldl_overlay map_uid_foldl_overlay)
  qed
next
  show "(\<forall>e\<in>set bs \<union> set ovs. start_of_kind k e) \<longrightarrow> (\<exists>out. main tzs bs ovs = Inr out)"
  proof
    assume a: "\<forall>e\<in>set bs \<union> set ovs. start_of_kind k e"
    then have "\<forall>b\<in>set bs. start_of_kind k b" "\<forall>ov\<in>set ovs. start_of_kind k ov"
      by simp_all
    from merge_loop_returns[OF this] obtain r
      where "merge_loop (index_base_by_uid bs) bs tzs ovs = Inr r" by blast
    then show "\<exists>out. main tzs bs ovs = Inr out"
      by (cases r) (simp add: main_def)
  qed
qed

text \<open>
  A run of the theorem: a time zone component, two base entries and two overrides. The
  first override names \<^verbatim>\<open>b2\<close> in \<^verbatim>\<open>X-ORIG-UID\<close> and is overlaid on it; the second
  matches nothing and is emitted, before the base entries.
\<close>

theorem main_output_order_witness:
  "list_all (start_of_kind NaiveKind)
     ([[''UID'' \<mapsto> VText ''b1'', ''SUMMARY'' \<mapsto> VText ''Algebra'',
        ''DTSTART'' \<mapsto> VDDD (Naive 63840909600000000) ''2024-01-15 10:00:00''],
       [''UID'' \<mapsto> VText ''b2'', ''SUMMARY'' \<mapsto> VText ''Seminar'']]
      @ [[''UID'' \<mapsto> VText ''o1'', ''X-ORIG-UID'' \<mapsto> VText ''b2'',
          ''SUMMARY'' \<mapsto> VText ''Seminar (moved)''],
         [''UID'' \<mapsto> VText ''o2'', ''SUMMARY'' \<mapsto> VText ''Dentist'',
          ''DTSTART'' \<mapsto> VDDD (Naive 63840916800000000) ''2024-01-15 12:00:00'']])
   \<and> decisions
        (index_base_by_uid
           [[''UID'' \<mapsto> VText ''b1'', ''SUMMARY'' \<mapsto> VText ''Algebra'',
             ''DTSTART'' \<mapsto> VDDD (Naive 63840909600000000) ''2024-01-15 10:00:00''],
            [''UID'' \<mapsto> VText ''b2'', ''SUMMARY'' \<mapsto> VText ''Seminar'']])
        [[''UID'' \<mapsto> VText ''b1'', ''SUMMARY'' \<mapsto> VText ''Algebra'',
          ''DTSTART'' \<mapsto> VDDD (Naive 63840909600000000) ''2024-01-15 10:00:00''],
         [''UID'' \<mapsto> VText ''b2'', ''SUMMARY'' \<mapsto> VText ''Seminar'']]
        [[''UID'' \<mapsto> VText ''o1'', ''X-ORIG-UID'' \<mapsto> VText ''b2'',
          ''SUMMARY'' \<mapsto> VText ''Seminar (moved)''],
         [''UID'' \<mapsto> VText ''o2'', ''SUMMARY'' \<mapsto> VText ''Dentist'',
          ''DTSTART'' \<mapsto> VDDD (Naive 63840916800000000) ''2024-01-15 12:00:00'']]
      = Inr [Some 1, None]
   \<and> (\<exists>out.
         main [[''TZID'' \<mapsto> VText ''Europe/Berlin'']]
           [[''UID'' \<mapsto> VText ''b1'', ''SUMMARY'' \<mapsto> VText ''Algebra'',
             ''DTSTART'' \<mapsto> VDDD (Naive 63840909600000000) ''2024-01-15 10:00:00''],
            [''UID'' \<mapsto> VText ''b2'', ''SUMMARY'' \<mapsto> VText ''Seminar'']]
           [[''UID'' \<mapsto> VText ''o1'', ''X-ORIG-UID'' \<mapsto> VText ''b2'',
             ''SUMMARY'' \<mapsto> VText ''Seminar (moved)''],
            [''UID'' \<mapsto> VText ''o2'', ''SUMMARY'' \<mapsto> VText ''Dentist'',
             ''DTSTART'' \<mapsto> VDDD (Naive 63840916800000000) ''2024-01-15 12:00:00'']]
           = Inr out
         \<and> out = [[''TZID'' \<mapsto> VText ''Europe/Berlin'']]
                 @ unmatched
                     [[''UID'' \<mapsto> VText ''o1'', ''X-ORIG-UID'' \<mapsto> VText ''b2'',
                       ''SUMMARY'' \<mapsto> VText ''Seminar (moved)''],
                      [''UID'' \<mapsto> VText ''o2'', ''SUMMARY'' \<mapsto> VText ''Dentist'',
                       ''DTSTART'' \<mapsto>
                         VDDD (Naive 63840916800000000) ''2024-01-15 12:00:00'']]
                     [Some 1, None]
                 @ foldl overlay_step
                     [[''UID'' \<mapsto> VText ''b1'', ''SUMMARY'' \<mapsto> VText ''Algebra'',
                       ''DTSTART'' \<mapsto>
                         VDDD (Naive 63840909600000000) ''2024-01-15 10:00:00''],
                      [''UID'' \<mapsto> VText ''b2'', ''SUMMARY'' \<mapsto> VText ''Seminar'']]
                     (zip [[''UID'' \<mapsto> VText ''o1'', ''X-ORIG-UID'' \<mapsto> VText ''b2'',
                            ''SUMMARY'' \<mapsto> VText ''Seminar (moved)''],
                           [''UID'' \<mapsto> VText ''o2'', ''SUMMARY'' \<mapsto> VText ''Dentist'',
                            ''DTSTART'' \<mapsto>
                              VDDD (Naive 63840916800000000) ''2024-01-15 12:00:00'']]
                        [Some 1, None])
         \<and> map uid out = [[], ''o2'', ''b1'', ''b2'']
         \<and> map (\<lambda>e. e ''SUMMARY'') out
             = [None, Some (VText ''Dentist''), Some (VText ''Algebra''),
                Some (VText ''Seminar (moved)'')])"
proof -
  let ?tzs = "[[''TZID'' \<mapsto> VText ''Europe/Berlin'']]"
  let ?bs = "[[''UID'' \<mapsto> VText ''b1'', ''SUMMARY'' \<mapsto> VText ''Algebra'',
             ''DTSTART'' \<mapsto> VDDD (Naive 63840909600000000) ''2024-01-15 10:00:00''],
            [''UID'' \<mapsto> VText ''b2'', ''SUMMARY'' \<mapsto> VText ''Seminar'']]"
  let ?ovs = "[[''UID'' \<mapsto> VText ''o1'', ''X-ORIG-UID'' \<mapsto> VText ''b2'',
             ''SUMMARY'' \<mapsto> VText ''Seminar (moved)''],
            [''UID'' \<mapsto> VText ''o2'', ''SUMMARY'' \<mapsto> VText ''Dentist'',
             ''DTSTART'' \<mapsto> VDDD (Naive 63840916800000000) ''2024-01-15 12:00:00'']]"
  have la: "list_all (start_of_kind NaiveKind) (?bs @ ?ovs)"
    by code_simp
  then have hyp: "\<forall>e\<in>set ?bs \<union> set ?ovs. start_of_kind NaiveKind e"
    by (simp only: list_all_iff set_append)
  have dec: "decisions (index_base_by_uid ?bs) ?bs ?ovs = Inr [Some 1, None]"
    by code_simp
  have ev: "(case main ?tzs ?bs ?ovs of
               Inl e \<Rightarrow> None
             | Inr out \<Rightarrow> Some (map uid out, map (\<lambda>e. e ''SUMMARY'') out))
            = Some ([[], ''o2'', ''b1'', ''b2''],
                    [None, Some (VText ''Dentist''), Some (VText ''Algebra''),
                     Some (VText ''Seminar (moved)'')])"
    by code_simp
  note mo = main_output_order[of ?tzs ?bs ?ovs NaiveKind]
  from mo hyp obtain out where out: "main ?tzs ?bs ?ovs = Inr out" by blast
  from mo have "main ?tzs ?bs ?ovs =
     (case decisions (index_base_by_uid ?bs) ?bs ?ovs of
        Inl e \<Rightarrow> Inl e
      | Inr ts \<Rightarrow> Inr (?tzs @ unmatched ?ovs ts @ foldl overlay_step ?bs (zip ?ovs ts)))"
    by (rule conjunct1)
  with out have shape: "out = ?tzs @ unmatched ?ovs [Some 1, None]
      @ foldl overlay_step ?bs (zip ?ovs [Some 1, None])"
    by (simp only: dec sum.case sum.inject)
  from out ev have u: "map uid out = [[], ''o2'', ''b1'', ''b2'']"
    and t: "map (\<lambda>e. e ''SUMMARY'') out
             = [None, Some (VText ''Dentist''), Some (VText ''Algebra''),
                Some (VText ''Seminar (moved)'')]"
    by simp_all
  note body = conjI[OF out conjI[OF shape conjI[OF u t]]]
  show ?thesis
    apply (rule conjI)
     apply (rule la)
    apply (rule conjI)
     apply (rule dec)
    apply (rule exI)
    apply (rule body)
    done
qed

text \<open>
  The claim as stated fails on the order: an override that matches nothing is added to
  the output inside the loop, before the base entries are written after it.
\<close>

theorem unmatched_override_precedes_base:
  "(case main []
          [[''UID'' \<mapsto> VText ''b1'', ''SUMMARY'' \<mapsto> VText ''X'']]
          [[''UID'' \<mapsto> VText ''o1'', ''SUMMARY'' \<mapsto> VText ''Y'']] of
      Inl e \<Rightarrow> None
    | Inr out \<Rightarrow> Some (map uid out)) = Some [''o1'', ''b1'']
   \<and> [''o1'', ''b1''] \<noteq> [''b1'', ''o1'']"
  by code_simp

end
